theory Spec2Isabelle
  imports Complex_Main "HOL-Library.Multiset"
begin

section \<open>Bugwatch: sighting ingestion and location distribution (src/app/page.tsx)\<close>

text \<open>
  A JavaScript string is a sequence of code units. A \<^typ>\<open>char\<close> stands for one code
  unit in the range U+0000 .. U+00FF, and a JavaScript string for a \<^typ>\<open>string\<close>.
\<close>

subsection \<open>String.prototype.trim\<close>

text \<open>
  \<open>trim\<close> removes the WhiteSpace and LineTerminator code points of ECMAScript from both
  ends. In the modelled range these are TAB, LF, VT, FF, CR, SPACE and NO-BREAK SPACE.
\<close>

definition isWhiteSpace :: "char \<Rightarrow> bool" where
  "isWhiteSpace c = (of_char c \<in> {9, 10, 11, 12, 13, 32, 160 :: nat})"

definition trimStart :: "string \<Rightarrow> string" where
  "trimStart s = dropWhile isWhiteSpace s"

definition trimEnd :: "string \<Rightarrow> string" where
  "trimEnd s = rev (dropWhile isWhiteSpace (rev s))"

definition trim :: "string \<Rightarrow> string" where
  "trim s = trimEnd (trimStart s)"

subsection \<open>The tag pattern \<open>/@<([^>]+)>/\<close>\<close>

text \<open>
  \<open>matchTag s\<close> is the attempt to match the pattern at the first position of \<open>s\<close>; it
  returns capture group 1. The class \<open>[^>]+\<close> is greedy: it takes the longest run of
  code units other than \<open>>\<close>. The run must be non-empty and a \<open>>\<close> must follow. Giving
  back code units of the run cannot help, since the code unit after a shorter run is not
  \<open>>\<close>; lemma \<open>matchTag_iff\<close> states the pattern's meaning declaratively.
\<close>

fun matchTag :: "string \<Rightarrow> string option" where
  "matchTag (a # b # rest) =
     (if a = CHR ''@'' \<and> b = CHR ''<'' then
        (let capture = takeWhile (\<lambda>c. c \<noteq> CHR ''>'') rest;
             after = dropWhile (\<lambda>c. c \<noteq> CHR ''>'') rest
         in if capture \<noteq> [] \<and> after \<noteq> [] then Some capture else None)
      else None)"
| "matchTag _ = None"

text \<open>
  \<open>text.match(re)\<close> without the global flag tries the positions from left to right and
  stops at the first one where the pattern matches; \<open>None\<close> is JavaScript's \<open>null\<close>.
\<close>

fun firstMatch :: "string \<Rightarrow> string option" where
  "firstMatch [] = None"
| "firstMatch (c # cs) =
     (case matchTag (c # cs) of
        Some capture \<Rightarrow> Some capture
      | None \<Rightarrow> firstMatch cs)"

text \<open>
  \<open>extractLocation\<close>: \<open>match && match[1]\<close> holds when there is a match whose capture is
  not the empty string (the empty string is falsy).
\<close>

definition extractLocation :: "string \<Rightarrow> string" where
  "extractLocation text =
     (case firstMatch text of
        Some capture \<Rightarrow> (if capture \<noteq> [] then trim capture else ''Unspecified'')
      | None \<Rightarrow> ''Unspecified'')"

subsection \<open>Relative time: \<open>prettyTime\<close>\<close>

text \<open>
  Timestamps are integral milliseconds, as \<open>Date.now()\<close> returns them; the current instant
  is the parameter \<open>now\<close>. Quotients are exact rationals. \<open>Math.round\<close> returns the
  integer closest to its argument, and of two equally close integers the one nearer to
  plus infinity.
\<close>

definition Math_round :: "rat \<Rightarrow> int" where
  "Math_round x = (let f = \<lfloor>x\<rfloor> in if x - of_int f < 1 / 2 then f else f + 1)"

text \<open>The decimal rendering of an integral number in a template literal.\<close>

definition digitChar :: "nat \<Rightarrow> char" where
  "digitChar d = ''0123456789'' ! d"

function digits :: "nat \<Rightarrow> string" where
  "digits n = (if n < 10 then [digitChar n] else digits (n div 10) @ [digitChar (n mod 10)])"
  by pat_completeness auto
termination
  by (relation "measure (\<lambda>n. n)") auto

definition numberToString :: "int \<Rightarrow> string" where
  "numberToString i = (if i < 0 then CHR ''-'' # digits (nat (- i)) else digits (nat i))"

definition prettyTime :: "int \<Rightarrow> int \<Rightarrow> string" where
  "prettyTime now timestamp =
     (let diff = now - timestamp;
          minutes = max 1 (Math_round (of_int diff / 60000))
      in if minutes < 60 then numberToString minutes @ ''m ago''
         else let hours = Math_round (of_int minutes / 60)
              in if hours < 24 then numberToString hours @ ''h ago''
                 else let days = Math_round (of_int hours / 24)
                      in numberToString days @ ''d ago'')"

subsection \<open>Sightings and the distribution by location\<close>

text \<open>The type \<open>Sighting\<close>; its field \<open>id\<close> is \<open>ident\<close> here.\<close>

record sighting =
  ident :: string
  description :: string
  location :: string
  imageUrl :: string
  createdAt :: int

text \<open>
  \<open>counts\<close> is a \<open>Map<string, number>\<close>. A JavaScript \<open>Map\<close> keeps its keys in the order
  of their first insertion, and \<open>entries()\<close> lists them in that order, so the map is an
  association list: \<open>Map_set\<close> overwrites the value of a present key in place and appends
  a new key at the end.
\<close>

fun Map_get :: "(string \<times> nat) list \<Rightarrow> string \<Rightarrow> nat option" where
  "Map_get [] k = None"
| "Map_get ((k', v) # m) k = (if k' = k then Some v else Map_get m k)"

fun Map_set :: "(string \<times> nat) list \<Rightarrow> string \<Rightarrow> nat \<Rightarrow> (string \<times> nat) list" where
  "Map_set [] k v = [(k, v)]"
| "Map_set ((k', v') # m) k v = (if k' = k then (k, v) # m else (k', v') # Map_set m k v)"

text \<open>One round of \<open>sightings.forEach\<close>; \<open>??\<close> replaces the \<open>undefined\<close> of an absent key by 0.\<close>

definition countSighting :: "(string \<times> nat) list \<Rightarrow> sighting \<Rightarrow> (string \<times> nat) list" where
  "countSighting counts s =
     Map_set counts (location s)
       ((case Map_get counts (location s) of None \<Rightarrow> 0 | Some c \<Rightarrow> c) + 1)"

definition countLocations :: "sighting list \<Rightarrow> (string \<times> nat) list" where
  "countLocations sightings = foldl countSighting [] sightings"

text \<open>The objects \<open>{ location, count }\<close> of \<open>items\<close>.\<close>

record item =
  item_location :: string
  item_count :: nat

text \<open>
  The comparison function handed to \<open>sort\<close>: \<open>b.count - a.count\<close> when that is not zero,
  else \<open>a.location.localeCompare(b.location)\<close>. \<open>localeCompare\<close> is the host's collation
  and is a parameter: negative, zero or positive as the first string sorts before, with
  or after the second.
\<close>

definition compareItems :: "(string \<Rightarrow> string \<Rightarrow> int) \<Rightarrow> item \<Rightarrow> item \<Rightarrow> int" where
  "compareItems localeCompare a b =
     (let d = int (item_count b) - int (item_count a)
      in if d \<noteq> 0 then d else localeCompare (item_location a) (item_location b))"

text \<open>
  \<open>Array.prototype.sort\<close> is a stable sort, and for a consistent comparison function
  the result of a stable sort is determined. It is modelled by stable insertion: each
  element is placed in front of the first element that it does not sort after.
\<close>

fun insertItem :: "('a \<Rightarrow> 'a \<Rightarrow> int) \<Rightarrow> 'a \<Rightarrow> 'a list \<Rightarrow> 'a list" where
  "insertItem compare x [] = [x]"
| "insertItem compare x (y # ys) =
     (if compare x y \<le> 0 then x # y # ys else y # insertItem compare x ys)"

definition Array_sort :: "('a \<Rightarrow> 'a \<Rightarrow> int) \<Rightarrow> 'a list \<Rightarrow> 'a list" where
  "Array_sort compare xs = foldr (insertItem compare) xs []"

definition distribution :: "(string \<Rightarrow> string \<Rightarrow> int) \<Rightarrow> sighting list \<Rightarrow> item list" where
  "distribution localeCompare sightings =
     (let counts = countLocations sightings;
          items = map (\<lambda>(location, count). \<lparr>item_location = location, item_count = count\<rparr>) counts
      in Array_sort (compareItems localeCompare) items)"

text \<open>
  A collation that compares code units from left to right; it instantiates the parameter
  \<open>localeCompare\<close> in the examples.
\<close>

fun codeUnitCompare :: "string \<Rightarrow> string \<Rightarrow> int" where
  "codeUnitCompare [] [] = 0"
| "codeUnitCompare [] (y # ys) = - 1"
| "codeUnitCompare (x # xs) [] = 1"
| "codeUnitCompare (x # xs) (y # ys) =
     (if (of_char x :: nat) < of_char y then - 1
      else if (of_char y :: nat) < of_char x then 1
      else codeUnitCompare xs ys)"

text \<open>
  A collation that ranks letters without regard to their case, as locale-sensitive
  collations do at their first level: it puts \<open>apple\<close> before \<open>Banana\<close>, which the
  code-unit order does not. It stands for a host whose \<open>localeCompare\<close> is not the
  code-unit order.
\<close>

definition foldCase :: "char \<Rightarrow> char" where
  "foldCase c =
     (let n = of_char c :: nat in if 65 \<le> n \<and> n \<le> 90 then char_of (n + 32) else c)"

definition caseFoldCompare :: "string \<Rightarrow> string \<Rightarrow> int" where
  "caseFoldCompare a b = codeUnitCompare (map foldCase a) (map foldCase b)"

subsection \<open>The submission handler: \<open>handleSubmit\<close>\<close>

text \<open>
  \<open>readFile\<close> settles when the \<open>FileReader\<close> fires \<open>load\<close> or \<open>error\<close>. On \<open>load\<close> the
  reader's result is a string (the data URL), an \<open>ArrayBuffer\<close> or \<open>null\<close>. What the
  reader does with a given file is the host's business: \<open>readAsDataURL\<close> is a parameter.
  A rejected promise carries the thrown value.
\<close>

datatype reader_result = StringResult string | ArrayBufferResult | NullResult

datatype reader_event = OnLoad reader_result | OnError

datatype thrown = ErrorObject string | OtherValue

definition readFile :: "('f \<Rightarrow> reader_event) \<Rightarrow> 'f \<Rightarrow> thrown + string" where
  "readFile readAsDataURL file =
     (case readAsDataURL file of
        OnLoad (StringResult s) \<Rightarrow> Inr s
      | OnLoad _ \<Rightarrow> Inl (ErrorObject ''Could not read file'')
      | OnError \<Rightarrow> Inl (ErrorObject ''Could not read file''))"

text \<open>
  The state of \<open>HomePage\<close>: the four \<open>useState\<close> cells \<open>description\<close>, \<open>file\<close>,
  \<open>sightings\<close> and \<open>errors\<close>; \<open>None\<close> is \<open>null\<close>.
\<close>

record 'f page =
  st_description :: string
  st_file :: "'f option"
  st_sightings :: "sighting list"
  st_errors :: "string option"

text \<open>What the handler reads from the host: the file reader, \<open>crypto.randomUUID()\<close> and \<open>Date.now()\<close>.\<close>

record 'f host =
  readAsDataURL :: "'f \<Rightarrow> reader_event"
  randomUUID :: string
  dateNow :: int

text \<open>
  The handler returns no value and reports a failure through \<open>setErrors\<close>. It has three
  failure exits, named as in the specification's error taxonomy; the model returns the
  exit taken, or the sighting created, together with the new state.
\<close>

datatype submission_error = MissingDescription | MissingImage | ImageReadError

definition handleSubmit ::
  "'f host \<Rightarrow> 'f page \<Rightarrow> (submission_error + sighting) \<times> 'f page" where
  "handleSubmit h st0 =
     (let st = st0\<lparr>st_errors := None\<rparr>
      in if trim (st_description st) = [] then
           (Inl MissingDescription,
            st\<lparr>st_errors := Some ''Describe the bug and include @<location>.''\<rparr>)
         else case st_file st of
           None \<Rightarrow>
             (Inl MissingImage,
              st\<lparr>st_errors := Some ''Attach a photo so others can verify the sighting.''\<rparr>)
         | Some file \<Rightarrow>
             (case readFile (readAsDataURL h) file of
                Inl error \<Rightarrow>
                  (Inl ImageReadError,
                   st\<lparr>st_errors := Some (case error of
                       ErrorObject message \<Rightarrow> message
                     | OtherValue \<Rightarrow> ''Could not upload file'')\<rparr>)
              | Inr url \<Rightarrow>
                  (let newSighting = \<lparr>ident = randomUUID h,
                                      description = st_description st,
                                      location = extractLocation (st_description st),
                                      imageUrl = url,
                                      createdAt = dateNow h\<rparr>
                   in (Inr newSighting,
                       st\<lparr>st_sightings := newSighting # st_sightings st,
                          st_description := [],
                          st_file := None\<rparr>))))"

subsection \<open>Initial and example data\<close>

text \<open>
  \<open>demoSightings\<close> is the initial value of the \<open>sightings\<close> cell; its timestamps are
  relative to the instant \<open>Date.now()\<close> at which the module is loaded.
\<close>

definition demoSightings :: "int \<Rightarrow> sighting list" where
  "demoSightings now =
     [\<lparr>ident = ''demo-1'',
       description = ''Tiny beetles near the vending machines. @<Science Atrium>'',
       location = ''Science Atrium'',
       imageUrl = ''https://images.unsplash.com/photo-1504518633247-6bf4c7c6f62c?auto=format&fit=crop&w=400&q=80'',
       createdAt = now - 1000 * 60 * 45\<rparr>,
      \<lparr>ident = ''demo-2'',
       description = ''Fruit flies around the compost bin. @<Cafe Patio>'',
       location = ''Cafe Patio'',
       imageUrl = ''https://images.unsplash.com/photo-1586953208448-b95ef33822f8?auto=format&fit=crop&w=400&q=80'',
       createdAt = now - 1000 * 60 * 90\<rparr>,
      \<lparr>ident = ''demo-3'',
       description = ''Mosquito swarm close to the south pond @<Lakeside Lawn>'',
       location = ''Lakeside Lawn'',
       imageUrl = ''https://images.unsplash.com/photo-1438109491414-7198515b166b?auto=format&fit=crop&w=400&q=80'',
       createdAt = now - 1000 * 60 * 150\<rparr>]"

text \<open>
  Data for the examples. Files are named by strings; the host reads \<open>bug.png\<close> and fails
  on every other file.
\<close>

definition exampleHost :: "string host" where
  "exampleHost =
     \<lparr>readAsDataURL = (\<lambda>file. if file = ''bug.png''
                             then OnLoad (StringResult ''data:image/png;base64,iVBORw0KGgo='')
                             else OnError),
      randomUUID = ''3f2b8c1e-7d4a-4c59-9e0f-5a6b7c8d9e0f'',
      dateNow = 1700000000000\<rparr>"

definition examplePage :: "string \<Rightarrow> string option \<Rightarrow> string page" where
  "examplePage text file =
     \<lparr>st_description = text, st_file = file,
      st_sightings = demoSightings 1700000000000, st_errors = None\<rparr>"

definition exampleSighting :: sighting where
  "exampleSighting =
     \<lparr>ident = ''3f2b8c1e-7d4a-4c59-9e0f-5a6b7c8d9e0f'',
      description = ''Gnats by the bins @<Cafe Patio>'',
      location = ''Cafe Patio'',
      imageUrl = ''data:image/png;base64,iVBORw0KGgo='',
      createdAt = 1700000000000\<rparr>"

section \<open>Properties\<close>

subsection \<open>Trimming\<close>

text \<open>
  \<open>trim s\<close> is \<open>s\<close> without a leading and a trailing run of whitespace, and what is
  left neither starts nor ends with whitespace.
\<close>

lemma trimEnd_decomposition:
  "u = trimEnd u @ rev (takeWhile isWhiteSpace (rev u))"
proof -
  have "rev (dropWhile isWhiteSpace (rev u)) @ rev (takeWhile isWhiteSpace (rev u))
        = rev (takeWhile isWhiteSpace (rev u) @ dropWhile isWhiteSpace (rev u))"
    by (simp only: rev_append)
  also have "\<dots> = u"
    by (simp only: takeWhile_dropWhile_id rev_rev_ident)
  finally show ?thesis by (simp add: trimEnd_def)
qed

lemma trim_decomposition:
  "\<exists>l r. s = l @ trim s @ r \<and> (\<forall>c \<in> set l. isWhiteSpace c) \<and> (\<forall>c \<in> set r. isWhiteSpace c)"
proof (intro exI conjI)
  let ?l = "takeWhile isWhiteSpace s"
  let ?r = "rev (takeWhile isWhiteSpace (rev (trimStart s)))"
  have "s = ?l @ trimStart s" by (simp add: trimStart_def)
  also have "trimStart s = trim s @ ?r"
    unfolding trim_def by (rule trimEnd_decomposition)
  finally show "s = ?l @ trim s @ ?r" .
  show "\<forall>c \<in> set ?l. isWhiteSpace c" by (auto dest: set_takeWhileD)
  show "\<forall>c \<in> set ?r. isWhiteSpace c" by (auto dest: set_takeWhileD)
qed

lemma trim_ends:
  assumes "trim s \<noteq> []"
  shows "\<not> isWhiteSpace (hd (trim s)) \<and> \<not> isWhiteSpace (last (trim s))"
proof
  let ?u = "trimStart s"
  from assms have d: "dropWhile isWhiteSpace (rev ?u) \<noteq> []"
    by (simp add: trim_def trimEnd_def)
  have "last (trim s) = hd (dropWhile isWhiteSpace (rev ?u))"
    using d by (simp add: trim_def trimEnd_def last_rev)
  with hd_dropWhile [OF d] show "\<not> isWhiteSpace (last (trim s))" by simp
  have u: "?u = trim s @ rev (takeWhile isWhiteSpace (rev ?u))"
    unfolding trim_def by (rule trimEnd_decomposition)
  with assms have ne: "?u \<noteq> []" by auto
  from u assms have "hd ?u = hd (trim s)" by (metis hd_append2)
  moreover from ne have "\<not> isWhiteSpace (hd ?u)"
    unfolding trimStart_def by (rule hd_dropWhile)
  ultimately show "\<not> isWhiteSpace (hd (trim s))" by simp
qed

subsection \<open>The tag pattern\<close>

lemma takeWhile_run:
  "CHR ''>'' \<notin> set X \<Longrightarrow> takeWhile (\<lambda>c. c \<noteq> CHR ''>'') (X @ CHR ''>'' # post) = X"
  by (induction X) auto

lemma dropWhile_run:
  "CHR ''>'' \<notin> set X \<Longrightarrow> dropWhile (\<lambda>c. c \<noteq> CHR ''>'') (X @ CHR ''>'' # post) = CHR ''>'' # post"
  by (induction X) auto

lemma run_split:
  "dropWhile (\<lambda>c. c \<noteq> CHR ''>'') rest \<noteq> [] \<Longrightarrow>
     \<exists>post. rest = takeWhile (\<lambda>c. c \<noteq> CHR ''>'') rest @ CHR ''>'' # post"
proof -
  assume ne: "dropWhile (\<lambda>c. c \<noteq> CHR ''>'') rest \<noteq> []"
  then obtain d ds where d: "dropWhile (\<lambda>c. c \<noteq> CHR ''>'') rest = d # ds"
    by (cases "dropWhile (\<lambda>c. c \<noteq> CHR ''>'') rest") auto
  from ne have "\<not> (hd (dropWhile (\<lambda>c. c \<noteq> CHR ''>'') rest) \<noteq> CHR ''>'')"
    by (rule hd_dropWhile)
  with d have "d = CHR ''>''" by simp
  with d have "rest = takeWhile (\<lambda>c. c \<noteq> CHR ''>'') rest @ CHR ''>'' # ds"
    by (metis takeWhile_dropWhile_id)
  then show ?thesis ..
qed

lemma matchTag_Some_D:
  assumes "matchTag s = Some X"
  shows "\<exists>post. s = ''@<'' @ X @ ''>'' @ post \<and> X \<noteq> [] \<and> CHR ''>'' \<notin> set X"
proof (cases s rule: matchTag.cases)
  case (1 a b rest)
  let ?P = "\<lambda>c. c \<noteq> CHR ''>''"
  from assms 1 have ab: "a = CHR ''@''" "b = CHR ''<''"
    and X: "X = takeWhile ?P rest" and ne: "X \<noteq> []" and dr: "dropWhile ?P rest \<noteq> []"
    by (auto simp: Let_def split: if_splits)
  from run_split [OF dr] X obtain post where "rest = X @ CHR ''>'' # post" by auto
  moreover have "CHR ''>'' \<notin> set X"
    unfolding X by (auto dest: set_takeWhileD)
  ultimately show ?thesis using 1 ab ne by auto
qed (use assms in simp_all)

lemma matchTag_Some_I:
  assumes "X \<noteq> []" and "CHR ''>'' \<notin> set X"
  shows "matchTag (''@<'' @ X @ ''>'' @ post) = Some X"
  using assms by (simp add: takeWhile_run dropWhile_run)

lemma matchTag_iff:
  "matchTag s = Some X \<longleftrightarrow>
     (\<exists>post. s = ''@<'' @ X @ ''>'' @ post \<and> X \<noteq> [] \<and> CHR ''>'' \<notin> set X)"
  using matchTag_Some_D matchTag_Some_I by blast

lemma firstMatch_None_iff:
  "firstMatch t = None \<longleftrightarrow> (\<forall>i < length t. matchTag (drop i t) = None)"
proof (induction t)
  case Nil
  show ?case by simp
next
  case (Cons c cs)
  show ?case
  proof (cases "matchTag (c # cs)")
    case None
    have "(\<forall>i < length (c # cs). matchTag (drop i (c # cs)) = None)
          \<longleftrightarrow> (\<forall>i < length cs. matchTag (drop i cs) = None)"
      using None by (auto simp: less_Suc_eq_0_disj)
    with None Cons.IH show ?thesis by simp
  next
    case (Some X)
    then have "\<not> (\<forall>i < length (c # cs). matchTag (drop i (c # cs)) = None)"
      by (auto intro: exI [of _ 0])
    with Some show ?thesis by simp
  qed
qed

lemma firstMatch_append:
  assumes "\<forall>i < length pre. matchTag (drop i (pre @ s)) = None" 
  shows "firstMatch (pre @ s) = firstMatch s"
  using assms
proof (induction pre)
  case Nil
  show ?case by simp
next
  case (Cons c cs)
  from Cons.prems have h: "matchTag (c # cs @ s) = None"
    by (auto dest: spec [of _ 0])
  from Cons.prems have "\<forall>i < length cs. matchTag (drop i (cs @ s)) = None"
    by (auto dest: spec [of _ "Suc i" for i])
  with Cons.IH h show ?case by simp
qed

lemma firstMatch_here:
  "matchTag s = Some X \<Longrightarrow> firstMatch s = Some X"
  by (cases s) auto

lemma tag_occurs_iff:
  "(\<exists>pre X post. t = pre @ ''@<'' @ X @ ''>'' @ post \<and> X \<noteq> [] \<and> CHR ''>'' \<notin> set X)
     \<longleftrightarrow> firstMatch t \<noteq> None"
proof
  assume "\<exists>pre X post. t = pre @ ''@<'' @ X @ ''>'' @ post \<and> X \<noteq> [] \<and> CHR ''>'' \<notin> set X"
  then obtain pre X post where t: "t = pre @ ''@<'' @ X @ ''>'' @ post"
    and X: "X \<noteq> []" "CHR ''>'' \<notin> set X" by blast
  have "matchTag (drop (length pre) t) = Some X"
    unfolding t using matchTag_Some_I [OF X] by simp
  moreover have "length pre < length t" unfolding t by simp
  ultimately show "firstMatch t \<noteq> None"
    unfolding firstMatch_None_iff by auto
next
  assume "firstMatch t \<noteq> None"
  then obtain i X where i: "i < length t" and m: "matchTag (drop i t) = Some X"
    unfolding firstMatch_None_iff by auto
  from matchTag_Some_D [OF m] obtain post
    where d: "drop i t = ''@<'' @ X @ ''>'' @ post" and X: "X \<noteq> []" "CHR ''>'' \<notin> set X"
    by blast
  have "t = take i t @ drop i t" by simp
  with d have "t = take i t @ ''@<'' @ X @ ''>'' @ post" by simp
  with X show "\<exists>pre X post. t = pre @ ''@<'' @ X @ ''>'' @ post \<and> X \<noteq> [] \<and> CHR ''>'' \<notin> set X"
    by blast
qed

subsection \<open>Tag extraction\<close>

text \<open>
  Claim C1, with the tag's content required to be non-empty. If \<open>t\<close> contains \<open>@<X>\<close>
  where \<open>X\<close> is one or more code units, none of them \<open>>\<close>, and this is the leftmost
  such occurrence in \<open>t\<close>, then \<open>extractLocation t\<close> is \<open>X\<close> without its leading and
  trailing whitespace.
\<close>

theorem extractLocation_first_tag:
  assumes t: "t = pre @ ''@<'' @ X @ ''>'' @ post"
    and X: "X \<noteq> []" "CHR ''>'' \<notin> set X"
    and first: "\<forall>pre' X' post'.
        t = pre' @ ''@<'' @ X' @ ''>'' @ post' \<and> X' \<noteq> [] \<and> CHR ''>'' \<notin> set X'
        \<longrightarrow> length pre \<le> length pre'"
  shows "extractLocation t = trim X"
proof -
  have none: "\<forall>i < length pre. matchTag (drop i t) = None"
  proof (intro allI impI)
    fix i assume i: "i < length pre"
    show "matchTag (drop i t) = None"
    proof (cases "matchTag (drop i t)")
      case None
      then show ?thesis .
    next
      case (Some X')
      from matchTag_Some_D [OF Some] obtain post'
        where d: "drop i t = ''@<'' @ X' @ ''>'' @ post'"
          and X': "X' \<noteq> []" "CHR ''>'' \<notin> set X'" by blast
      have "t = take i t @ drop i t" by simp
      with d have "t = take i t @ ''@<'' @ X' @ ''>'' @ post'" by simp
      with first X' have "length pre \<le> length (take i t)" by blast
      moreover have "length (take i t) \<le> i" by simp
      ultimately show ?thesis using i by simp
    qed
  qed
  have "firstMatch t = firstMatch (''@<'' @ X @ ''>'' @ post)"
    using none unfolding t by (rule firstMatch_append)
  also have "\<dots> = Some X"
    by (rule firstMatch_here) (rule matchTag_Some_I [OF X])
  finally show ?thesis using X by (simp add: extractLocation_def)
qed

text \<open>
  Claim C1 as written also covers an empty \<open>X\<close>. The text \<open>@<>\<close> is \<open>@<X>\<close> with the
  empty \<open>X\<close> at its first position. The pattern does not match there (\<open>+\<close> needs one
  code unit), and the result is the sentinel, not the trimmed empty content.
\<close>

theorem extractLocation_empty_tag_counterexample:
  "''@<>'' = [] @ ''@<'' @ [] @ ''>'' @ [] \<and>
   extractLocation ''@<>'' = ''Unspecified'' \<and>
   trim [] = [] \<and>
   extractLocation ''@<>'' \<noteq> trim []"
  by (simp add: extractLocation_def trim_def trimStart_def trimEnd_def)

text \<open>
  A text with three tags: the first is empty and is skipped, the second is the leftmost
  one with content, the third is ignored.
\<close>

theorem extractLocation_first_tag_witness:
  "extractLocation ''ants @<> by @< East Quad > and @<Lab>'' = ''East Quad''"
proof -
  let ?t = "''ants @<> by @< East Quad > and @<Lab>''"
  have t: "?t = ''ants @<> by '' @ ''@<'' @ '' East Quad '' @ ''>'' @ '' and @<Lab>''" by simp
  have X: "'' East Quad '' \<noteq> []" "CHR ''>'' \<notin> set '' East Quad ''" by simp_all
  have first: "\<forall>pre' X' post'.
        ?t = pre' @ ''@<'' @ X' @ ''>'' @ post' \<and> X' \<noteq> [] \<and> CHR ''>'' \<notin> set X'
        \<longrightarrow> length ''ants @<> by '' \<le> length pre'"
  proof (intro allI impI, elim conjE)
    fix pre' X' post'
    assume eq: "?t = pre' @ ''@<'' @ X' @ ''>'' @ post'"
      and X': "X' \<noteq> []" "CHR ''>'' \<notin> set X'"
    show "length ''ants @<> by '' \<le> length pre'"
    proof (rule ccontr)
      assume "\<not> length ''ants @<> by '' \<le> length pre'"
      then have l: "length pre' < 12" by simp
      have "matchTag (drop (length pre') ?t) = Some X'"
        using matchTag_Some_I [OF X', of post'] by (subst eq) simp
      moreover have "\<forall>i < 12. matchTag (drop i ?t) = None"
        by (simp add: less_Suc_eq numeral_nat)
      ultimately show False using l by simp
    qed
  qed
  have "extractLocation ?t = trim '' East Quad ''"
    using extractLocation_first_tag [OF t X first] .
  then show ?thesis
    by (simp add: trim_def trimStart_def trimEnd_def isWhiteSpace_def)
qed

text \<open>
  Claim C2. If \<open>t\<close> has no substring of the form \<open>@<...>\<close>, then \<open>extractLocation t\<close> is
  the sentinel \<open>Unspecified\<close>; and if \<open>t\<close> contains \<open>@<>\<close> and every tag in \<open>t\<close> is
  this empty one, the result is the sentinel as well.
\<close>

theorem extractLocation_no_tag:
  "(\<not> (\<exists>pre X post. t = pre @ ''@<'' @ X @ ''>'' @ post)
      \<longrightarrow> extractLocation t = ''Unspecified'') \<and>
   ((\<exists>pre post. t = pre @ ''@<>'' @ post) \<and>
    (\<forall>pre X post. t = pre @ ''@<'' @ X @ ''>'' @ post \<and> CHR ''>'' \<notin> set X \<longrightarrow> X = [])
      \<longrightarrow> extractLocation t = ''Unspecified'')"
proof (intro conjI impI)
  assume "\<not> (\<exists>pre X post. t = pre @ ''@<'' @ X @ ''>'' @ post)"
  then have "firstMatch t = None"
    using tag_occurs_iff [of t] by blast
  then show "extractLocation t = ''Unspecified''"
    by (simp add: extractLocation_def)
next
  assume "(\<exists>pre post. t = pre @ ''@<>'' @ post) \<and>
    (\<forall>pre X post. t = pre @ ''@<'' @ X @ ''>'' @ post \<and> CHR ''>'' \<notin> set X \<longrightarrow> X = [])"
  then have "firstMatch t = None"
    using tag_occurs_iff [of t] by blast
  then show "extractLocation t = ''Unspecified''"
    by (simp add: extractLocation_def)
qed

text \<open>A description without any tag, and one whose only tag is empty.\<close>

theorem extractLocation_no_tag_witness:
  "extractLocation ''ants by the bins'' = ''Unspecified'' \<and>
   extractLocation ''ants @<> by the bins'' = ''Unspecified''"
proof
  let ?t = "''ants by the bins''"
  have "\<not> (\<exists>pre X post. ?t = pre @ ''@<'' @ X @ ''>'' @ post)"
  proof
    assume "\<exists>pre X post. ?t = pre @ ''@<'' @ X @ ''>'' @ post"
    then obtain pre X post where eq: "?t = pre @ ''@<'' @ X @ ''>'' @ post" by blast
    have "CHR ''@'' \<in> set (pre @ ''@<'' @ X @ ''>'' @ post)" by simp
    with eq have "CHR ''@'' \<in> set ?t" by simp
    then show False by simp
  qed
  with extractLocation_no_tag [of ?t] show "extractLocation ?t = ''Unspecified''"
    by blast
next
  let ?t = "''ants @<> by the bins''"
  have occ: "\<exists>pre post. ?t = pre @ ''@<>'' @ post"
  proof (intro exI)
    show "?t = ''ants '' @ ''@<>'' @ '' by the bins''" by simp
  qed
  have only: "\<forall>pre X post. ?t = pre @ ''@<'' @ X @ ''>'' @ post \<and> CHR ''>'' \<notin> set X \<longrightarrow> X = []"
  proof (intro allI impI, elim conjE)
    fix pre X post
    assume eq: "?t = pre @ ''@<'' @ X @ ''>'' @ post" and X: "CHR ''>'' \<notin> set X"
    have none: "firstMatch ?t = None" by simp
    show "X = []"
    proof (rule ccontr)
      assume "X \<noteq> []"
      with eq X have "firstMatch ?t \<noteq> None"
        unfolding tag_occurs_iff [symmetric] by blast
      with none show False by simp
    qed
  qed
  from extractLocation_no_tag [of ?t] occ only
  show "extractLocation ?t = ''Unspecified''" by blast
qed

subsection \<open>Relative time\<close>

text \<open>\<open>Math.round\<close> is rounding to the nearest integer with halves going up.\<close>

lemma Math_round_eq_round: "Math_round x = round x"
proof -
  let ?f = "\<lfloor>x\<rfloor>"
  show ?thesis
  proof (cases "x - of_int ?f < 1 / 2")
    case True
    have "\<lfloor>x + 1 / 2\<rfloor> = ?f"
    proof (rule floor_unique)
      show "of_int ?f \<le> x + 1 / 2"
        using of_int_floor_le [of x] by linarith
      show "x + 1 / 2 < of_int ?f + 1"
        using True by linarith
    qed
    with True show ?thesis by (simp add: Math_round_def round_def)
  next
    case False
    have "\<lfloor>x + 1 / 2\<rfloor> = ?f + 1"
    proof (rule floor_unique)
      show "of_int (?f + 1) \<le> x + 1 / 2"
        using False by simp
      show "x + 1 / 2 < of_int (?f + 1) + 1"
        using floor_correct [of x] by simp
    qed
    with False show ?thesis by (simp add: Math_round_def round_def)
  qed
qed

lemma round_quotient:
  assumes "0 < k"
  shows "round (of_int a / of_int (2 * k) :: rat) = (a + k) div (2 * k)"
proof -
  have k: "(of_int k :: rat) \<noteq> 0" using assms by simp
  have "(of_int a / of_int (2 * k) + 1 / 2 :: rat) = of_int (a + k) / of_int (2 * k)"
    using k by (simp add: field_simps)
  then have "round (of_int a / of_int (2 * k) :: rat) = \<lfloor>of_int (a + k) / of_int (2 * k) :: rat\<rfloor>"
    by (simp only: round_def)
  also have "\<dots> = (a + k) div (2 * k)"
    by (rule floor_divide_of_int_eq)
  finally show ?thesis .
qed

lemma round_minutes: "round (of_int d / 60000 :: rat) = (d + 30000) div 60000"
  using round_quotient [of 30000 d] by simp

lemma round_hours: "round (of_int m / 60 :: rat) = (m + 30) div 60"
  using round_quotient [of 30 m] by simp

lemma round_days: "round (of_int h / 24 :: rat) = (h + 12) div 24"
  using round_quotient [of 12 h] by simp

lemma prettyTime_int:
  "prettyTime now timestamp =
     (let minutes = max 1 ((now - timestamp + 30000) div 60000)
      in if minutes < 60 then numberToString minutes @ ''m ago''
         else let hours = (minutes + 30) div 60
              in if hours < 24 then numberToString hours @ ''h ago''
                 else numberToString ((hours + 12) div 24) @ ''d ago'')"
  by (simp add: prettyTime_def Let_def Math_round_eq_round round_minutes round_hours round_days
      del: of_int_diff)

lemma numberToString_1: "numberToString 1 = ''1''"
  by (simp add: numberToString_def digitChar_def)

text \<open>
  Claim C8. For an instant at or before \<open>now\<close>, with
  \<open>minutes = max 1 (round (elapsed / 60000))\<close>, \<open>hours = round (minutes / 60)\<close> and
  \<open>days = round (hours / 24)\<close>: below 60 minutes \<open>prettyTime\<close> renders the minutes
  with \<open>m ago\<close>, else below 24 hours the hours with \<open>h ago\<close>, else the days with
  \<open>d ago\<close>; the number rendered is at least 1; and 150 minutes render as \<open>3h ago\<close>.
  Here \<open>round\<close> is rounding to the nearest integer, a half going up.
\<close>

theorem prettyTime_rendering:
  assumes "timestamp \<le> now"
  shows "(let minutes = max 1 (round (of_int (now - timestamp) / 60000 :: rat));
              hours = round (of_int minutes / 60 :: rat);
              days = round (of_int hours / 24 :: rat)
          in (minutes < 60 \<longrightarrow>
                prettyTime now timestamp = numberToString minutes @ ''m ago'' \<and> 1 \<le> minutes) \<and>
             (\<not> minutes < 60 \<and> hours < 24 \<longrightarrow>
                prettyTime now timestamp = numberToString hours @ ''h ago'' \<and> 1 \<le> hours) \<and>
             (\<not> minutes < 60 \<and> \<not> hours < 24 \<longrightarrow>
                prettyTime now timestamp = numberToString days @ ''d ago'' \<and> 1 \<le> days)) \<and>
         prettyTime now (now - 150 * 60000) = ''3h ago''"
proof -
  define minutes where "minutes = max 1 (round (of_int (now - timestamp) / 60000 :: rat))"
  define hours where "hours = round (of_int minutes / 60 :: rat)"
  define days where "days = round (of_int hours / 24 :: rat)"
  have pt: "prettyTime now timestamp =
      (if minutes < 60 then numberToString minutes @ ''m ago''
       else if hours < 24 then numberToString hours @ ''h ago''
       else numberToString days @ ''d ago'')"
    by (simp add: prettyTime_def Let_def Math_round_eq_round minutes_def hours_def days_def
        del: of_int_diff)
  have m1: "1 \<le> minutes" by (simp add: minutes_def)
  have h1: "1 \<le> hours" if "\<not> minutes < 60"
    using that unfolding hours_def round_hours by simp
  have d1: "1 \<le> days" if "\<not> hours < 24"
    using that unfolding days_def round_days by simp
  have ex: "prettyTime now (now - 150 * 60000) = ''3h ago''"
    by (simp add: prettyTime_int numberToString_def digitChar_def)
  show ?thesis
    unfolding Let_def minutes_def [symmetric] hours_def [symmetric] days_def [symmetric]
    using pt m1 h1 d1 ex by simp
qed

text \<open>Instants 45 minutes, 150 minutes and three days before \<open>now\<close>.\<close>

theorem prettyTime_rendering_witness:
  "(0 :: int) \<le> 2700000 \<and>
   prettyTime 2700000 0 = ''45m ago'' \<and>
   prettyTime 9000000 0 = ''3h ago'' \<and>
   prettyTime 259200000 0 = ''3d ago''"
proof -
  have half: "round (5 / 2 :: rat) = 3"
    using round_hours [of 150] by simp
  have "prettyTime 2700000 0 = ''45m ago''"
    using prettyTime_rendering [of 0 2700000]
    by (simp add: numberToString_def digitChar_def)
  moreover have "prettyTime 9000000 0 = ''3h ago''"
    using prettyTime_rendering [of 0 9000000]
    by (simp add: half numberToString_def digitChar_def)
  moreover have "prettyTime 259200000 0 = ''3d ago''"
    using prettyTime_rendering [of 0 259200000]
    by (simp add: numberToString_def digitChar_def)
  ultimately show ?thesis by simp
qed

text \<open>
  Claim C10. For a timestamp that is not earlier than \<open>now\<close> (the elapsed time is zero
  or negative) \<open>prettyTime\<close> returns exactly \<open>1m ago\<close>.
\<close>

theorem prettyTime_not_earlier:
  assumes "now \<le> timestamp"
  shows "prettyTime now timestamp = ''1m ago''"
proof -
  from assms have "(now - timestamp + 30000) div 60000 \<le> 30000 div (60000 :: int)"
    by (intro zdiv_mono1) simp_all
  then have "(now - timestamp + 30000) div 60000 \<le> 0"
    by simp
  then have "max 1 ((now - timestamp + 30000) div 60000) = 1"
    by simp
  then show ?thesis
    by (simp add: prettyTime_int numberToString_1)
qed

text \<open>The present instant and an instant in the future.\<close>

theorem prettyTime_not_earlier_witness:
  "(1000 :: int) \<le> 5000000 \<and> prettyTime 1000 1000 = ''1m ago'' \<and> prettyTime 1000 5000000 = ''1m ago''"
  using prettyTime_not_earlier [of 1000 5000000] prettyTime_not_earlier [of 1000 1000] by simp

subsection \<open>The distribution by location\<close>

lemma keys_Map_set:
  "map fst (Map_set m k v) = (if k \<in> fst ` set m then map fst m else map fst m @ [k])"
  by (induction m k v rule: Map_set.induct) auto

lemma Map_get_None_iff: "Map_get m k = None \<longleftrightarrow> k \<notin> fst ` set m"
  by (induction m k rule: Map_get.induct) auto

lemma sum_Map_set:
  "sum_list (map snd (Map_set m k v)) + (case Map_get m k of None \<Rightarrow> 0 | Some c \<Rightarrow> c)
     = sum_list (map snd m) + v"
  by (induction m k v rule: Map_set.induct) auto

lemma sum_countSighting:
  "sum_list (map snd (countSighting m s)) = sum_list (map snd m) + 1"
  using sum_Map_set [of m "location s" "(case Map_get m (location s) of None \<Rightarrow> 0 | Some c \<Rightarrow> c) + 1"]
  by (simp add: countSighting_def)

lemma keys_countSighting:
  "map fst (countSighting m s) =
     (if location s \<in> fst ` set m then map fst m else map fst m @ [location s])"
  by (simp add: countSighting_def keys_Map_set)

lemma distinct_countSighting:
  "distinct (map fst m) \<Longrightarrow> distinct (map fst (countSighting m s))"
  by (simp add: keys_countSighting)

lemma set_keys_countSighting:
  "fst ` set (countSighting m s) = insert (location s) (fst ` set m)"
proof -
  have "set (map fst (countSighting m s)) = insert (location s) (set (map fst m))"
    unfolding keys_countSighting by auto
  then show ?thesis by simp
qed

lemma sum_foldl_count:
  "sum_list (map snd (foldl countSighting m ss)) = sum_list (map snd m) + length ss"
  by (induction ss arbitrary: m) (simp_all add: sum_countSighting)

lemma distinct_foldl_count:
  "distinct (map fst m) \<Longrightarrow> distinct (map fst (foldl countSighting m ss))"
  by (induction ss arbitrary: m) (simp_all add: distinct_countSighting)

lemma set_keys_foldl_count:
  "fst ` set (foldl countSighting m ss) = fst ` set m \<union> location ` set ss"
  by (induction ss arbitrary: m) (simp_all add: set_keys_countSighting)

lemma mset_insertItem: "mset (insertItem compare x ys) = add_mset x (mset ys)"
  by (induction ys) auto

lemma mset_Array_sort: "mset (Array_sort compare xs) = mset xs"
  unfolding Array_sort_def by (induction xs) (simp_all add: mset_insertItem)

lemma set_Array_sort: "set (Array_sort compare xs) = set xs"
  using mset_Array_sort [of compare xs] by (metis set_mset_mset)

lemma length_Array_sort: "length (Array_sort compare xs) = length xs"
  using mset_Array_sort [of compare xs] by (metis size_mset)

lemma sum_list_map_Array_sort:
  "sum_list (map (f :: 'a \<Rightarrow> nat) (Array_sort compare xs)) = sum_list (map f xs)"
proof -
  have "mset (map f (Array_sort compare xs)) = mset (map f xs)"
    by (simp add: mset_Array_sort)
  then show ?thesis by (metis sum_mset_sum_list)
qed

lemma distinct_map_Array_sort:
  "distinct (map f (Array_sort compare xs)) = distinct (map f xs)"
proof -
  have "mset (map f (Array_sort compare xs)) = mset (map f xs)"
    by (simp add: mset_Array_sort)
  then show ?thesis by (rule mset_eq_imp_distinct_iff)
qed

lemma distribution_unfold:
  "distribution lc ss =
     Array_sort (compareItems lc)
       (map (\<lambda>(location, count). \<lparr>item_location = location, item_count = count\<rparr>)
          (countLocations ss))"
  by (simp add: distribution_def)

lemma map_item_location:
  "map item_location
     (map (\<lambda>(location, count). \<lparr>item_location = location, item_count = count\<rparr>) m) = map fst m"
  by (induction m) auto

lemma map_item_count:
  "map item_count
     (map (\<lambda>(location, count). \<lparr>item_location = location, item_count = count\<rparr>) m) = map snd m"
  by (induction m) auto

text \<open>
  Claim C3. The counts of the entries returned by \<open>distribution\<close> add up to the number
  of sightings; the locations of the entries are pairwise different and are exactly the
  locations that occur in the input, one entry each; and no sighting gives no entry.
\<close>

theorem distribution_counts:
  "sum_list (map item_count (distribution localeCompare sightings)) = length sightings \<and>
   distinct (map item_location (distribution localeCompare sightings)) \<and>
   set (map item_location (distribution localeCompare sightings)) = location ` set sightings \<and>
   length (distribution localeCompare sightings) = card (location ` set sightings) \<and>
   distribution localeCompare [] = []"
proof -
  let ?counts = "countLocations sightings"
  let ?out = "distribution localeCompare sightings"
  have "sum_list (map item_count ?out) = sum_list (map snd ?counts)"
    unfolding distribution_unfold sum_list_map_Array_sort map_item_count ..
  also have "\<dots> = length sightings"
    using sum_foldl_count [of "[]" sightings] by (simp add: countLocations_def)
  finally have sum: "sum_list (map item_count ?out) = length sightings" .
  have "distinct (map item_location ?out) = distinct (map fst ?counts)"
    unfolding distribution_unfold distinct_map_Array_sort map_item_location ..
  moreover have "distinct (map fst ?counts)"
    using distinct_foldl_count [of "[]" sightings] by (simp add: countLocations_def)
  ultimately have dist: "distinct (map item_location ?out)" by simp
  have "mset (map item_location ?out) = mset (map fst ?counts)"
    unfolding distribution_unfold
    by (simp only: mset_map mset_Array_sort flip: map_item_location)
  then have "set (map item_location ?out) = set (map fst ?counts)"
    by (rule mset_eq_setD)
  also have "\<dots> = location ` set sightings"
    using set_keys_foldl_count [of "[]" sightings] by (simp add: countLocations_def)
  finally have keys: "set (map item_location ?out) = location ` set sightings" .
  have "length ?out = length (map item_location ?out)" by simp
  also have "\<dots> = card (set (map item_location ?out))"
    using dist by (rule distinct_card [symmetric])
  finally have len: "length ?out = card (location ` set sightings)"
    unfolding keys .
  have empty: "distribution localeCompare [] = []"
    by (simp add: distribution_def countLocations_def Array_sort_def)
  from sum dist keys len empty show ?thesis by simp
qed

lemma set_insertItem: "set (insertItem compare x ys) = insert x (set ys)"
  using mset_insertItem [of compare x ys] by (metis set_mset_add_mset_insert set_mset_mset)

lemma sorted_insertItem:
  assumes total: "\<And>a b. compare a b \<le> 0 \<or> compare b a \<le> 0"
    and trans: "\<And>a b c. compare a b \<le> 0 \<Longrightarrow> compare b c \<le> 0 \<Longrightarrow> compare a c \<le> 0"
    and sorted: "sorted_wrt (\<lambda>a b. compare a b \<le> 0) ys"
  shows "sorted_wrt (\<lambda>a b. compare a b \<le> 0) (insertItem compare x ys)"
  using sorted
proof (induction ys)
  case Nil
  show ?case by simp
next
  case (Cons y ys)
  show ?case
  proof (cases "compare x y \<le> 0")
    case True
    with Cons.prems trans show ?thesis by auto
  next
    case False
    with total [of x y] have "compare y x \<le> 0" by simp
    with False Cons show ?thesis by (auto simp: set_insertItem)
  qed
qed

lemma sorted_Array_sort:
  assumes total: "\<And>a b. compare a b \<le> 0 \<or> compare b a \<le> 0"
    and trans: "\<And>a b c. compare a b \<le> 0 \<Longrightarrow> compare b c \<le> 0 \<Longrightarrow> compare a c \<le> 0"
  shows "sorted_wrt (\<lambda>a b. compare a b \<le> 0) (Array_sort compare xs)"
proof (induction xs)
  case Nil
  show ?case by (simp add: Array_sort_def)
next
  case (Cons x xs)
  have "Array_sort compare (x # xs) = insertItem compare x (Array_sort compare xs)"
    by (simp add: Array_sort_def)
  with sorted_insertItem [of compare, OF total trans Cons.IH] show ?case by simp
qed

lemma compareItems_le_iff:
  "compareItems lc a b \<le> 0 \<longleftrightarrow>
     item_count b < item_count a \<or>
     (item_count a = item_count b \<and> lc (item_location a) (item_location b) \<le> 0)"
  by (auto simp: compareItems_def Let_def)

lemma codeUnitCompare_total: "codeUnitCompare a b \<le> 0 \<or> codeUnitCompare b a \<le> 0"
  by (induction a b rule: codeUnitCompare.induct) auto

lemma codeUnitCompare_trans:
  "codeUnitCompare a b \<le> 0 \<Longrightarrow> codeUnitCompare b c \<le> 0 \<Longrightarrow> codeUnitCompare a c \<le> 0"
proof (induction a arbitrary: b c)
  case Nil
  then show ?case by (cases c) auto
next
  case (Cons x xs)
  from Cons.prems obtain y ys where b: "b = y # ys" by (cases b) auto
  from Cons.prems b obtain z zs where c: "c = z # zs" by (cases c) auto
  from Cons.prems Cons.IH [of ys zs] show ?case
    unfolding b c by (auto split: if_splits)
qed

lemma caseFoldCompare_total: "caseFoldCompare a b \<le> 0 \<or> caseFoldCompare b a \<le> 0"
  unfolding caseFoldCompare_def by (rule codeUnitCompare_total)

lemma caseFoldCompare_trans:
  "caseFoldCompare a b \<le> 0 \<Longrightarrow> caseFoldCompare b c \<le> 0 \<Longrightarrow> caseFoldCompare a c \<le> 0"
  unfolding caseFoldCompare_def by (rule codeUnitCompare_trans)

text \<open>The distribution reads nothing of a sighting but its location.\<close>

lemma countSighting_location:
  "location s = location s' \<Longrightarrow> countSighting m s = countSighting m s'"
  by (simp add: countSighting_def)

lemma foldl_count_locations:
  "map location ss = map location ss' \<Longrightarrow>
     foldl countSighting m ss = foldl countSighting m ss'"
proof (induction ss arbitrary: ss' m)
  case Nil
  then show ?case by simp
next
  case (Cons s ss)
  from Cons.prems obtain t ts where ss': "ss' = t # ts" by (cases ss') auto
  with Cons.prems have l: "location s = location t" and r: "map location ss = map location ts"
    by simp_all
  from Cons.IH [OF r] countSighting_location [OF l] show ?case
    unfolding ss' by simp
qed

lemma distribution_locations:
  "map location ss = map location ss' \<Longrightarrow> distribution lc ss = distribution lc ss'"
  using foldl_count_locations [of ss ss' "[]"]
  by (simp add: distribution_def countLocations_def)

text \<open>
  Claim C4 as written orders tied entries by the ascending lexicographic order of their
  locations. The code orders them by the host's \<open>localeCompare\<close>. Under a collation that
  disregards case, two sightings at \<open>apple\<close> and \<open>Banana\<close> give the entries in this order
  with equal counts, while \<open>apple\<close> comes after \<open>Banana\<close> in the lexicographic order of
  code units.
\<close>

theorem distribution_lexicographic_counterexample:
  "distribution caseFoldCompare
     [\<lparr>ident = ''1'', description = ''ants @<apple>'', location = ''apple'',
       imageUrl = ''data:,'', createdAt = 0\<rparr>,
      \<lparr>ident = ''2'', description = ''ants @<Banana>'', location = ''Banana'',
       imageUrl = ''data:,'', createdAt = 0\<rparr>]
     = [\<lparr>item_location = ''apple'', item_count = 1\<rparr>,
        \<lparr>item_location = ''Banana'', item_count = 1\<rparr>] \<and>
   caseFoldCompare ''apple'' ''Banana'' < 0 \<and>
   0 < codeUnitCompare ''apple'' ''Banana''"
  by (simp add: distribution_def countLocations_def countSighting_def Array_sort_def
      compareItems_def caseFoldCompare_def foldCase_def)

text \<open>
  Claim C4, with the order of the locations being that of the host's \<open>localeCompare\<close>.
  Let \<open>localeCompare\<close> be a consistent comparison: any two strings are comparable, and
  the comparison is transitive. Then for adjacent entries \<open>a\<close>, \<open>b\<close> of the output either
  \<open>a\<close> has the greater count, or the counts are equal and
  \<open>localeCompare\<close> of the location of \<open>a\<close> and the location of \<open>b\<close> is at most 0. The
  output is determined by the collation and the sequence of the sightings' locations:
  inputs with the same locations in the same order, and so equal inputs, give equal
  outputs.
\<close>

theorem distribution_sorted:
  assumes total: "\<forall>a b. localeCompare a b \<le> 0 \<or> localeCompare b a \<le> 0"
    and trans: "\<forall>a b c. localeCompare a b \<le> 0 \<and> localeCompare b c \<le> 0
                  \<longrightarrow> localeCompare a c \<le> 0"
  shows "(\<forall>i. Suc i < length (distribution localeCompare sightings) \<longrightarrow>
            (let a = distribution localeCompare sightings ! i;
                 b = distribution localeCompare sightings ! Suc i
             in item_count a > item_count b \<or>
                (item_count a = item_count b \<and>
                 localeCompare (item_location a) (item_location b) \<le> 0))) \<and>
         (\<forall>sightings'. map location sightings' = map location sightings \<longrightarrow>
            distribution localeCompare sightings' = distribution localeCompare sightings)"
proof -
  let ?cmp = "compareItems localeCompare"
  let ?out = "distribution localeCompare sightings"
  have tot: "?cmp a b \<le> 0 \<or> ?cmp b a \<le> 0" for a b
    using total unfolding compareItems_le_iff by (metis linorder_neqE_nat)
  have tr: "?cmp a c \<le> 0" if "?cmp a b \<le> 0" "?cmp b c \<le> 0" for a b c
    using that trans unfolding compareItems_le_iff by (metis order.strict_trans)
  have sorted: "sorted_wrt (\<lambda>a b. ?cmp a b \<le> 0) ?out"
    unfolding distribution_unfold by (rule sorted_Array_sort [of ?cmp, OF tot tr])
  have adjacent: "?cmp (?out ! i) (?out ! Suc i) \<le> 0" if "Suc i < length ?out" for i
    using sorted that by (simp add: sorted_wrt_iff_nth_less)
  have same: "distribution localeCompare sightings' = ?out"
    if "map location sightings' = map location sightings" for sightings'
    using that by (rule distribution_locations)
  from adjacent have first: "\<forall>i. Suc i < length ?out \<longrightarrow>
            (let a = ?out ! i; b = ?out ! Suc i
             in item_count a > item_count b \<or>
                (item_count a = item_count b \<and>
                 localeCompare (item_location a) (item_location b) \<le> 0))"
    unfolding compareItems_le_iff Let_def by auto
  from same have second: "\<forall>sightings'. map location sightings' = map location sightings \<longrightarrow>
            distribution localeCompare sightings' = ?out"
    by blast
  from first second show ?thesis by (rule conjI)
qed

text \<open>
  The demo sightings with one more sighting at the Cafe Patio, under the code-unit
  collation and under the collation that disregards case; and the same locations with
  another identifier on the first sighting.
\<close>

theorem distribution_sorted_witness:
  "distribution codeUnitCompare (exampleSighting # demoSightings 1700000000000)
     = [\<lparr>item_location = ''Cafe Patio'', item_count = 2\<rparr>,
        \<lparr>item_location = ''Lakeside Lawn'', item_count = 1\<rparr>,
        \<lparr>item_location = ''Science Atrium'', item_count = 1\<rparr>] \<and>
   (let a = distribution codeUnitCompare (exampleSighting # demoSightings 1700000000000) ! 0;
        b = distribution codeUnitCompare (exampleSighting # demoSightings 1700000000000) ! Suc 0
    in item_count a > item_count b \<or>
       (item_count a = item_count b \<and>
        codeUnitCompare (item_location a) (item_location b) \<le> 0)) \<and>
   (let a = distribution codeUnitCompare (exampleSighting # demoSightings 1700000000000) ! 1;
        b = distribution codeUnitCompare (exampleSighting # demoSightings 1700000000000) ! Suc 1
    in item_count a > item_count b \<or>
       (item_count a = item_count b \<and>
        codeUnitCompare (item_location a) (item_location b) \<le> 0)) \<and>
   distribution caseFoldCompare
       (exampleSighting\<lparr>ident := ''other''\<rparr> # demoSightings 1700000000000)
     = distribution caseFoldCompare (exampleSighting # demoSightings 1700000000000)"
proof -
  let ?in = "exampleSighting # demoSightings 1700000000000"
  let ?out = "distribution codeUnitCompare ?in"
  have out: "?out
     = [\<lparr>item_location = ''Cafe Patio'', item_count = 2\<rparr>,
        \<lparr>item_location = ''Lakeside Lawn'', item_count = 1\<rparr>,
        \<lparr>item_location = ''Science Atrium'', item_count = 1\<rparr>]"
    by (simp add: distribution_def countLocations_def countSighting_def Array_sort_def
        compareItems_def exampleSighting_def demoSightings_def)
  have total: "\<forall>a b. codeUnitCompare a b \<le> 0 \<or> codeUnitCompare b a \<le> 0"
    using codeUnitCompare_total by blast
  have trans: "\<forall>a b c. codeUnitCompare a b \<le> 0 \<and> codeUnitCompare b c \<le> 0
                  \<longrightarrow> codeUnitCompare a c \<le> 0"
    using codeUnitCompare_trans by blast
  have len: "Suc 0 < length ?out" "Suc 1 < length ?out"
    unfolding out by simp_all
  from distribution_sorted [OF total trans, of ?in]
  have adjacent: "\<forall>i. Suc i < length ?out \<longrightarrow>
      (let a = ?out ! i; b = ?out ! Suc i
       in item_count a > item_count b \<or>
          (item_count a = item_count b \<and>
           codeUnitCompare (item_location a) (item_location b) \<le> 0))"
    by blast
  from adjacent len(1) have first: "let a = ?out ! 0; b = ?out ! Suc 0
       in item_count a > item_count b \<or>
          (item_count a = item_count b \<and>
           codeUnitCompare (item_location a) (item_location b) \<le> 0)"
    by blast
  from adjacent len(2) have second: "let a = ?out ! 1; b = ?out ! Suc 1
       in item_count a > item_count b \<or>
          (item_count a = item_count b \<and>
           codeUnitCompare (item_location a) (item_location b) \<le> 0)"
    by blast
  have total': "\<forall>a b. caseFoldCompare a b \<le> 0 \<or> caseFoldCompare b a \<le> 0"
    using caseFoldCompare_total by blast
  have trans': "\<forall>a b c. caseFoldCompare a b \<le> 0 \<and> caseFoldCompare b c \<le> 0
                  \<longrightarrow> caseFoldCompare a c \<le> 0"
    using caseFoldCompare_trans by blast
  have locs: "map location (exampleSighting\<lparr>ident := ''other''\<rparr> # demoSightings 1700000000000)
      = map location ?in"
    by simp
  from distribution_sorted [OF total' trans', of ?in] locs
  have same: "distribution caseFoldCompare
       (exampleSighting\<lparr>ident := ''other''\<rparr> # demoSightings 1700000000000)
     = distribution caseFoldCompare ?in"
    by blast
  from out first second same show ?thesis by blast
qed

subsection \<open>The submission handler\<close>

lemma readFile_cases:
  "readFile r f = Inl e \<Longrightarrow> e = ErrorObject ''Could not read file''"
  by (auto simp: readFile_def split: reader_event.splits reader_result.splits)

text \<open>
  Claim C5. \<open>handleSubmit\<close> validates in a fixed order. Whatever the image, a
  description that is empty after trimming gives \<open>MissingDescription\<close>. Otherwise,
  whatever the description, a missing image (\<open>null\<close>) gives \<open>MissingImage\<close>. Otherwise,
  an image that \<open>readFile\<close> cannot turn into a data URL gives \<open>ImageReadError\<close>.
\<close>

theorem handleSubmit_validation_order:
  "(trim (st_description st) = []
      \<longrightarrow> fst (handleSubmit h st) = Inl MissingDescription) \<and>
   (trim (st_description st) \<noteq> [] \<and> st_file st = None
      \<longrightarrow> fst (handleSubmit h st) = Inl MissingImage) \<and>
   (trim (st_description st) \<noteq> [] \<and> st_file st = Some file \<and>
    readFile (readAsDataURL h) file = Inl e
      \<longrightarrow> fst (handleSubmit h st) = Inl ImageReadError)"
  by (simp add: handleSubmit_def Let_def)

text \<open>A blank description, a missing file and an unreadable file.\<close>

theorem handleSubmit_validation_order_witness:
  "fst (handleSubmit exampleHost (examplePage ''  '' (Some ''bug.png''))) = Inl MissingDescription \<and>
   fst (handleSubmit exampleHost (examplePage ''valid text @<Lab>'' None)) = Inl MissingImage \<and>
   fst (handleSubmit exampleHost (examplePage ''valid text @<Lab>'' (Some ''torn.png'')))
     = Inl ImageReadError"
proof (intro conjI)
  have "trim (st_description (examplePage ''  '' (Some ''bug.png''))) = []"
    by (simp add: examplePage_def trim_def trimStart_def trimEnd_def isWhiteSpace_def)
  with handleSubmit_validation_order [of "examplePage ''  '' (Some ''bug.png'')" exampleHost]
  show "fst (handleSubmit exampleHost (examplePage ''  '' (Some ''bug.png''))) = Inl MissingDescription"
    by blast
next
  let ?st = "examplePage ''valid text @<Lab>'' None"
  have "trim (st_description ?st) \<noteq> [] \<and> st_file ?st = None"
    by (simp add: examplePage_def trim_def trimStart_def trimEnd_def isWhiteSpace_def)
  with handleSubmit_validation_order [of ?st exampleHost]
  show "fst (handleSubmit exampleHost ?st) = Inl MissingImage"
    by blast
next
  let ?st = "examplePage ''valid text @<Lab>'' (Some ''torn.png'')"
  have "trim (st_description ?st) \<noteq> [] \<and> st_file ?st = Some ''torn.png'' \<and>
        readFile (readAsDataURL exampleHost) ''torn.png'' = Inl (ErrorObject ''Could not read file'')"
    by (simp add: examplePage_def exampleHost_def readFile_def
        trim_def trimStart_def trimEnd_def isWhiteSpace_def)
  with handleSubmit_validation_order
         [of ?st exampleHost "''torn.png''" "ErrorObject ''Could not read file''"]
  show "fst (handleSubmit exampleHost ?st) = Inl ImageReadError"
    by blast
qed

text \<open>
  Claim C6. Whenever \<open>handleSubmit\<close> fails, the collection of sightings, the description
  text and the selected file are what they were before.
\<close>

theorem handleSubmit_failure_keeps_input:
  assumes "fst (handleSubmit h st) = Inl e"
  shows "st_sightings (snd (handleSubmit h st)) = st_sightings st \<and>
         st_description (snd (handleSubmit h st)) = st_description st \<and>
         st_file (snd (handleSubmit h st)) = st_file st"
  using assms
  by (auto simp: handleSubmit_def Let_def split: if_splits option.splits sum.splits)

text \<open>A submission whose file cannot be read.\<close>

theorem handleSubmit_failure_keeps_input_witness:
  "fst (handleSubmit exampleHost (examplePage ''ants @<Lab>'' (Some ''torn.png''))) = Inl ImageReadError \<and>
   st_sightings (snd (handleSubmit exampleHost (examplePage ''ants @<Lab>'' (Some ''torn.png''))))
     = demoSightings 1700000000000 \<and>
   st_description (snd (handleSubmit exampleHost (examplePage ''ants @<Lab>'' (Some ''torn.png''))))
     = ''ants @<Lab>'' \<and>
   st_file (snd (handleSubmit exampleHost (examplePage ''ants @<Lab>'' (Some ''torn.png''))))
     = Some ''torn.png''"
proof -
  let ?st = "examplePage ''ants @<Lab>'' (Some ''torn.png'')"
  have failed: "fst (handleSubmit exampleHost ?st) = Inl ImageReadError"
    by (simp add: handleSubmit_def Let_def readFile_def exampleHost_def examplePage_def
        trim_def trimStart_def trimEnd_def isWhiteSpace_def)
  from handleSubmit_failure_keeps_input [OF failed] failed show ?thesis
    by (simp add: examplePage_def)
qed

text \<open>
  Claim C7. After a successful \<open>handleSubmit\<close> the collection is the new sighting
  followed by the previous collection: the new record is the head, and the entries
  after it are the previous ones, unchanged, in their order, none missing.
\<close>

theorem handleSubmit_prepends:
  assumes "fst (handleSubmit h st) = Inr s"
  shows "st_sightings (snd (handleSubmit h st)) = s # st_sightings st \<and>
         hd (st_sightings (snd (handleSubmit h st))) = s \<and>
         drop 1 (st_sightings (snd (handleSubmit h st))) = st_sightings st \<and>
         length (st_sightings (snd (handleSubmit h st))) = Suc (length (st_sightings st))"
  using assms
  by (auto simp: handleSubmit_def Let_def split: if_splits option.splits sum.splits)

text \<open>A successful submission on top of the demo sightings.\<close>

theorem handleSubmit_prepends_witness:
  "fst (handleSubmit exampleHost (examplePage ''Gnats by the bins @<Cafe Patio>'' (Some ''bug.png'')))
     = Inr exampleSighting \<and>
   st_sightings (snd (handleSubmit exampleHost
       (examplePage ''Gnats by the bins @<Cafe Patio>'' (Some ''bug.png''))))
     = exampleSighting # demoSightings 1700000000000"
proof -
  let ?st = "examplePage ''Gnats by the bins @<Cafe Patio>'' (Some ''bug.png'')"
  have ok: "fst (handleSubmit exampleHost ?st) = Inr exampleSighting"
    by (simp add: handleSubmit_def Let_def readFile_def exampleHost_def examplePage_def
        exampleSighting_def extractLocation_def trim_def trimStart_def trimEnd_def isWhiteSpace_def)
  from handleSubmit_prepends [OF ok] ok show ?thesis
    by (simp add: examplePage_def)
qed

text \<open>
  Claim C9 asks that every sighting created has a non-empty location. A tag that holds
  only whitespace passes the test \<open>match && match[1]\<close>, which looks at the capture
  before it is trimmed, and the sighting is stored with the empty string as its location.
\<close>

theorem handleSubmit_blank_tag_location:
  "extractLocation ''ants @< >'' = [] \<and>
   fst (handleSubmit exampleHost (examplePage ''ants @< >'' (Some ''bug.png'')))
     = Inr \<lparr>ident = ''3f2b8c1e-7d4a-4c59-9e0f-5a6b7c8d9e0f'',
            description = ''ants @< >'',
            location = [],
            imageUrl = ''data:image/png;base64,iVBORw0KGgo='',
            createdAt = 1700000000000\<rparr>"
  by (simp add: handleSubmit_def Let_def readFile_def exampleHost_def examplePage_def
      extractLocation_def trim_def trimStart_def trimEnd_def isWhiteSpace_def)

end
